theory Spec2Isabelle
  imports Complex_Main
begin

section \<open>Python floats\<close>

text \<open>
  Every number the animation engine handles is a Python \<open>float\<close>, an IEEE 754 binary64
  value. A float is modelled by the real number it denotes, and every arithmetic
  operation by the exact operation followed by rounding to the nearest binary64 value,
  ties to even. Subnormal numbers are covered (the exponent is clamped at \<open>-1022\<close>);
  infinities, NaN and overflow are not: the values of an animation stay far from
  \<open>2 ^ 1024\<close>.
\<close>

datatype error = ZeroDivisionError | ValueError | KeyError

text \<open>Round to the nearest integer, ties to the even one.\<close>

definition rne :: "real \<Rightarrow> int" where
  "rne x = (let f = \<lfloor>x\<rfloor>; d = x - of_int f in
     if d < 1 / 2 then f else if 1 / 2 < d then f + 1 else if even f then f else f + 1)"

text \<open>
  \<open>binade n x\<close> searches, in at most \<open>n\<close> halvings or doublings, the exponent \<open>e\<close>
  with \<open>2 ^ e \<le> x < 2 ^ (e + 1)\<close>.
\<close>

fun binade :: "nat \<Rightarrow> real \<Rightarrow> int" where
  "binade 0 x = 0"
| "binade (Suc n) x =
     (if 2 \<le> x then binade n (x / 2) + 1
      else if x < 1 then binade n (2 * x) - 1
      else 0)"

definition exponent :: "real \<Rightarrow> int" where
  "exponent x = max (- 1022) (min 1023 (binade 1100 \<bar>x\<bar>))"

text \<open>The binary64 value nearest to a real: 53 significant bits at the exponent of \<open>x\<close>.\<close>

definition binary64 :: "real \<Rightarrow> real" where
  "binary64 x = (if x = 0 then 0 else
     let u = 2 powi (exponent x - 52)
     in sgn x * of_int (rne (\<bar>x\<bar> / u)) * u)"

definition fadd :: "real \<Rightarrow> real \<Rightarrow> real" where
  "fadd x y = binary64 (x + y)"

definition fsub :: "real \<Rightarrow> real \<Rightarrow> real" where
  "fsub x y = binary64 (x - y)"

definition fmul :: "real \<Rightarrow> real \<Rightarrow> real" where
  "fmul x y = binary64 (x * y)"

text \<open>Division by a divisor that the caller knows is not zero.\<close>

definition fdiv :: "real \<Rightarrow> real \<Rightarrow> real" where
  "fdiv x y = binary64 (x / y)"

text \<open>
  \<open>pow(x, n)\<close> for the literal exponents 2 and 3 of the easing formulas, taken as
  correctly rounded.
\<close>

definition fpow :: "real \<Rightarrow> nat \<Rightarrow> real" where
  "fpow x n = binary64 (x ^ n)"

text \<open>\<open>math.sqrt\<close> raises \<open>ValueError\<close> on a negative argument.\<close>

definition py_sqrt :: "real \<Rightarrow> error + real" where
  "py_sqrt x = (if x < 0 then Inl ValueError else Inr (binary64 (sqrt x)))"

text \<open>\<open>f(x)\<close> applied to a result that may be an exception.\<close>

definition and_then :: "error + real \<Rightarrow> (real \<Rightarrow> real) \<Rightarrow> error + real" where
  "and_then r f = (case r of Inl e \<Rightarrow> Inl e | Inr v \<Rightarrow> Inr (f v))"

section \<open>Easing kinds and the animation configuration\<close>

datatype EasingType =
    LINEAR
  | EASE_IN_QUAD
  | EASE_OUT_QUAD
  | EASE_IN_OUT_QUAD
  | EASE_IN_CUBIC
  | EASE_OUT_CUBIC
  | EASE_IN_OUT_CUBIC
  | BOUNCE_OUT
  | ELASTIC_OUT
  | EASE_IN_BACK
  | EASE_OUT_BACK
  | EASE_IN_OUT_BACK
  | EASE_IN_CIRC
  | EASE_OUT_CIRC
  | EASE_IN_OUT_CIRC

text \<open>
  The field \<open>easing\<close> of a configuration is annotated with \<open>EasingType\<close>, but a dataclass
  does not check its fields: it may hold any object. \<open>Other s\<close> stands for an object that
  is no member of the enumeration.
\<close>

datatype easing_selector = Kind EasingType | Other string

record AnimationConfig =
  duration :: real
  easing :: easing_selector
  fps :: int
  auto_reverse :: bool
  repeat_count :: int
  delay :: real

definition default_config :: AnimationConfig where
  "default_config = \<lparr> duration = binary64 (3 / 10), easing = Kind EASE_OUT_CUBIC, fps = 60,
     auto_reverse = False, repeat_count = 1, delay = 0 \<rparr>"

section \<open>EasingFunctions\<close>

definition linear_ease :: "real \<Rightarrow> error + real" where
  "linear_ease t = Inr t"

definition ease_in_quad :: "real \<Rightarrow> error + real" where
  "ease_in_quad t = Inr (fmul t t)"

definition ease_out_quad :: "real \<Rightarrow> error + real" where
  "ease_out_quad t = Inr (fmul t (fsub 2 t))"

definition ease_in_out_quad :: "real \<Rightarrow> error + real" where
  "ease_in_out_quad t =
     Inr (if t < 1 / 2 then fmul (fmul 2 t) t
          else fsub 1 (fdiv (fpow (fadd (fmul (- 2) t) 2) 2) 2))"

definition ease_in_cubic :: "real \<Rightarrow> error + real" where
  "ease_in_cubic t = Inr (fmul (fmul t t) t)"

definition ease_out_cubic :: "real \<Rightarrow> error + real" where
  "ease_out_cubic t = Inr (fsub 1 (fpow (fsub 1 t) 3))"

definition ease_in_out_cubic :: "real \<Rightarrow> error + real" where
  "ease_in_out_cubic t =
     Inr (if t < 1 / 2 then fmul (fmul (fmul 4 t) t) t
          else fsub 1 (fdiv (fpow (fadd (fmul (- 2) t) 2) 3) 2))"

definition bounce_out :: "real \<Rightarrow> error + real" where
  "bounce_out t =
     Inr (if t < fdiv 1 (275 / 100) then fmul (fmul (75625 / 10000) t) t
          else if t < fdiv 2 (275 / 100) then
            (let t' = fsub t (fdiv (15 / 10) (275 / 100))
             in fadd (fmul (fmul (75625 / 10000) t') t') (75 / 100))
          else if t < fdiv (25 / 10) (275 / 100) then
            (let t' = fsub t (fdiv (225 / 100) (275 / 100))
             in fadd (fmul (fmul (75625 / 10000) t') t') (9375 / 10000))
          else
            (let t' = fsub t (fdiv (2625 / 1000) (275 / 100))
             in fadd (fmul (fmul (75625 / 10000) t') t') (984375 / 1000000)))"

text \<open>
  \<open>pow(2, x)\<close> and \<open>math.sin\<close> are taken as correctly rounded, which the C library only
  approximates; no property below depends on them.
\<close>

definition elastic_out :: "real \<Rightarrow> error + real" where
  "elastic_out t =
     Inr (if t = 0 \<or> t = 1 then t
          else fadd (fmul (binary64 (2 powr fmul (- 10) t))
                          (binary64 (sin (fdiv (fmul (fsub (fmul t 10) (75 / 100))
                                                     (fmul 2 (binary64 pi))) 3))))
                    1)"

text \<open>The literal \<open>1.70158\<close> and the constant \<open>c3 = c1 + 1\<close> of the three back easings.\<close>

definition c1 :: real where
  "c1 = binary64 (170158 / 100000)"

definition c3 :: real where
  "c3 = fadd c1 1"

definition c2 :: real where
  "c2 = fmul c1 (binary64 (1525 / 1000))"

text \<open>
  The class body defines \<open>ease_in_back\<close>, \<open>ease_out_back\<close> and \<open>ease_in_out_back\<close>
  twice; the later definition replaces the earlier one, so the later one is embedded.
  The two definitions of \<open>ease_in_out_back\<close> differ in their first branch (the later
  one computes \<open>2 * t * t\<close> where the earlier one has \<open>pow(2 * t, 2)\<close>).
\<close>

definition ease_in_back :: "real \<Rightarrow> error + real" where
  "ease_in_back t = Inr (fsub (fmul (fmul (fmul c3 t) t) t) (fmul (fmul c1 t) t))"

definition ease_out_back :: "real \<Rightarrow> error + real" where
  "ease_out_back t =
     Inr (fadd (fadd 1 (fmul c3 (fpow (fsub t 1) 3))) (fmul c1 (fpow (fsub t 1) 2)))"

definition ease_in_out_back :: "real \<Rightarrow> error + real" where
  "ease_in_out_back t =
     Inr (if t < 1 / 2 then
            fdiv (fmul (fmul (fmul 2 t) t) (fsub (fmul (fmul (fadd c2 1) 2) t) c2)) 2
          else
            fdiv (fadd (fmul (fpow (fsub (fmul 2 t) 2) 2)
                             (fadd (fmul (fadd c2 1) (fsub (fmul t 2) 2)) c2)) 2) 2)"

definition ease_in_circ :: "real \<Rightarrow> error + real" where
  "ease_in_circ t = and_then (py_sqrt (fsub 1 (fpow t 2))) (\<lambda>s. fsub 1 s)"

definition ease_out_circ :: "real \<Rightarrow> error + real" where
  "ease_out_circ t = py_sqrt (fsub 1 (fpow (fsub t 1) 2))"

definition ease_in_out_circ :: "real \<Rightarrow> error + real" where
  "ease_in_out_circ t =
     (if t < 1 / 2 then
        and_then (py_sqrt (fsub 1 (fpow (fmul 2 t) 2))) (\<lambda>s. fdiv (fsub 1 s) 2)
      else
        and_then (py_sqrt (fsub 1 (fpow (fadd (fmul (- 2) t) 2) 2))) (\<lambda>s. fdiv (fadd s 1) 2))"

text \<open>The table \<open>_easing_functions\<close> built by \<open>AnimationManager.__init__\<close>.\<close>

fun easing_functions :: "EasingType \<Rightarrow> real \<Rightarrow> error + real" where
  "easing_functions LINEAR = linear_ease"
| "easing_functions EASE_IN_QUAD = ease_in_quad"
| "easing_functions EASE_OUT_QUAD = ease_out_quad"
| "easing_functions EASE_IN_OUT_QUAD = ease_in_out_quad"
| "easing_functions EASE_IN_CUBIC = ease_in_cubic"
| "easing_functions EASE_OUT_CUBIC = ease_out_cubic"
| "easing_functions EASE_IN_OUT_CUBIC = ease_in_out_cubic"
| "easing_functions BOUNCE_OUT = bounce_out"
| "easing_functions ELASTIC_OUT = elastic_out"
| "easing_functions EASE_IN_BACK = ease_in_back"
| "easing_functions EASE_OUT_BACK = ease_out_back"
| "easing_functions EASE_IN_OUT_BACK = ease_in_out_back"
| "easing_functions EASE_IN_CIRC = ease_in_circ"
| "easing_functions EASE_OUT_CIRC = ease_out_circ"
| "easing_functions EASE_IN_OUT_CIRC = ease_in_out_circ"

text \<open>\<open>self._easing_functions.get(config.easing, EasingFunctions.ease_out_cubic)\<close>\<close>

fun easing_func :: "easing_selector \<Rightarrow> real \<Rightarrow> error + real" where
  "easing_func (Kind k) = easing_functions k"
| "easing_func (Other s) = ease_out_cubic"

section \<open>AnimationManager\<close>

text \<open>
  Every call of \<open>animate\<close> creates a thread object; the thread is identified by its
  position in the list of all threads created so far. The record holds the arguments of
  \<open>_animation_loop\<close>, the attribute \<open>do_run\<close> of the thread object, and the place
  the thread has reached. \<open>completion_callback\<close> tells whether a completion callback
  was passed (it is \<open>None\<close> by default).
\<close>

type_synonym thread_id = nat

datatype location =
    AtStart
  | AtFor nat
  | AtWhile nat real
  | AtCleanup
  | AtCompletion
  | Returned
  | Died error

text \<open>
  \<^item> \<open>AtStart\<close>: started, \<open>_animation_loop\<close> not yet past its initial delay;
  \<^item> \<open>AtFor r\<close>: at the head of the \<open>for\<close> loop, about to draw the repeat index
    \<open>r\<close> from \<open>range(config.repeat_count)\<close>;
  \<^item> \<open>AtWhile r st\<close>: at the head of the \<open>while\<close> loop of repeat \<open>r\<close>, whose
    \<open>start_time\<close> is \<open>st\<close> (after \<open>time.sleep(frame_duration)\<close>, or on entry);
  \<^item> \<open>AtCleanup\<close>, \<open>AtCompletion\<close>: before the clean-up of the registry, before
    the call of the completion callback;
  \<^item> \<open>Returned\<close>: \<open>_animation_loop\<close> has returned;
  \<^item> \<open>Died e\<close>: an exception left \<open>_animation_loop\<close> and ended the thread.
\<close>

record animation_thread =
  animation_id :: string
  start_value :: real
  end_value :: real
  config :: AnimationConfig
  completion_callback :: bool
  do_run :: bool
  place :: location

text \<open>
  The calls of the callbacks, in the order they happen. An update records the thread that
  made the call and its local variables \<open>repeat\<close>, \<open>progress\<close> and
  \<open>current_value\<close>; the callback itself receives \<open>current_value\<close> only.
  \<open>UpdateError\<close> and \<open>CompletionError\<close> are calls that raised: the exception is
  caught and printed.
\<close>

datatype event =
    Update thread_id nat real real
  | UpdateError thread_id nat real real
  | Completion thread_id
  | CompletionError thread_id

record manager =
  active_animations :: "string \<rightharpoonup> thread_id"
  threads :: "animation_thread list"
  events :: "event list"

definition manager_init :: manager where
  "manager_init = \<lparr> active_animations = Map.empty, threads = [], events = [] \<rparr>"

text \<open>\<open>d[k]\<close> and \<open>del d[k]\<close> raise \<open>KeyError\<close> when the key is missing.\<close>

definition py_getitem :: "('k \<rightharpoonup> 'v) \<Rightarrow> 'k \<Rightarrow> error + 'v" where
  "py_getitem d k = (case d k of None \<Rightarrow> Inl KeyError | Some v \<Rightarrow> Inr v)"

definition py_delitem :: "('k \<rightharpoonup> 'v) \<Rightarrow> 'k \<Rightarrow> error + ('k \<rightharpoonup> 'v)" where
  "py_delitem d k = (case d k of None \<Rightarrow> Inl KeyError | Some v \<Rightarrow> Inr (d(k := None)))"

definition set_do_run :: "thread_id \<Rightarrow> bool \<Rightarrow> animation_thread list \<Rightarrow> animation_thread list" where
  "set_do_run t b ths = (if t < length ths then ths[t := (ths ! t)\<lparr>do_run := b\<rparr>] else ths)"

definition stop_animation :: "string \<Rightarrow> manager \<Rightarrow> error + manager" where
  "stop_animation aid m =
     (if active_animations m aid \<noteq> None then
        (case py_getitem (active_animations m) aid of
           Inl e \<Rightarrow> Inl e
         | Inr t \<Rightarrow>
             (case py_delitem (active_animations m) aid of
                Inl e \<Rightarrow> Inl e
              | Inr d \<Rightarrow> Inr (m\<lparr>threads := set_do_run t False (threads m),
                                  active_animations := d\<rparr>)))
      else Inr m)"

definition is_animating :: "string \<Rightarrow> manager \<Rightarrow> bool" where
  "is_animating aid m = (active_animations m aid \<noteq> None)"

text \<open>
  \<open>animate\<close>: \<open>config or AnimationConfig()\<close>, stop the animation registered under
  the identifier, create the thread with \<open>do_run = True\<close>, register it, start it.
  Nothing in it inspects the configuration.
\<close>

definition animate ::
  "string \<Rightarrow> real \<Rightarrow> real \<Rightarrow> AnimationConfig option \<Rightarrow> bool \<Rightarrow> manager \<Rightarrow> error + manager" where
  "animate aid sv ev cfg cc m =
     (case stop_animation aid m of
        Inl e \<Rightarrow> Inl e
      | Inr m1 \<Rightarrow>
          Inr (m1\<lparr>active_animations := (active_animations m1)(aid \<mapsto> length (threads m1)),
                   threads := threads m1 @
                     [\<lparr> animation_id = aid, start_value = sv, end_value = ev,
                        config = (case cfg of None \<Rightarrow> default_config | Some c \<Rightarrow> c),
                        completion_callback = cc, do_run = True, place = AtStart \<rparr>]\<rparr>))"

subsection \<open>The animation loop\<close>

text \<open>\<open>progress = min(elapsed / config.duration, 1.0)\<close> with \<open>elapsed = time.time() - start_time\<close>\<close>

definition raw_progress :: "AnimationConfig \<Rightarrow> real \<Rightarrow> real \<Rightarrow> real" where
  "raw_progress cfg st now = min (fdiv (fsub now st) (duration cfg)) 1"

text \<open>The auto-reverse of the eased progress, then the interpolation.\<close>

definition current_value :: "animation_thread \<Rightarrow> nat \<Rightarrow> real \<Rightarrow> real" where
  "current_value th r eased_progress =
     (let eased = (if auto_reverse (config th) \<and> r mod 2 = 1 then fsub 1 eased_progress
                   else eased_progress)
      in fadd (start_value th) (fmul (fsub (end_value th) (start_value th)) eased))"

definition goto :: "thread_id \<Rightarrow> location \<Rightarrow> manager \<Rightarrow> manager" where
  "goto t l m = m\<lparr>threads := (threads m)[t := (threads m ! t)\<lparr>place := l\<rparr>]\<rparr>"

definition emit :: "event \<Rightarrow> manager \<Rightarrow> manager" where
  "emit ev m = m\<lparr>events := events m @ [ev]\<rparr>"

text \<open>
  One step of thread \<open>t\<close>: from a loop head to the next one. Threads interleave at
  these places, which include every \<open>time.sleep\<close>; the test of \<open>do_run\<close> and the
  body of the iteration it guards are one step. \<open>now\<close> is what \<open>time.time()\<close>
  returns in this step, \<open>raises\<close> tells whether the callback called in this step
  raises an exception.

  \<^item> At the start: the delay, the look-up of the easing function, and
    \<open>frame_duration = 1.0 / config.fps\<close>, which raises when \<open>fps\<close> is 0.
  \<^item> In the \<open>while\<close> loop: \<open>elapsed / config.duration\<close> raises when the duration is
    0; an exception of the easing function is not caught; an exception of the update
    callback is caught, printed, and followed by \<open>break\<close>;
    \<open>time.sleep(frame_duration)\<close> raises \<open>ValueError\<close> on a negative length.
  \<^item> The clean-up deletes whatever is registered under the thread's identifier.
\<close>

definition step_thread :: "thread_id \<Rightarrow> real \<Rightarrow> bool \<Rightarrow> manager \<Rightarrow> manager" where
  "step_thread t now raises m =
     (if length (threads m) \<le> t then m
      else
        let th = threads m ! t; cfg = config th in
        case place th of
          AtStart \<Rightarrow>
            if fps cfg = 0 then goto t (Died ZeroDivisionError) m else goto t (AtFor 0) m
        | AtFor r \<Rightarrow>
            if int r < repeat_count cfg then goto t (AtWhile r now) m else goto t AtCleanup m
        | AtWhile r st \<Rightarrow>
            if \<not> do_run th then goto t (AtFor (Suc r)) m
            else if duration cfg = 0 then goto t (Died ZeroDivisionError) m
            else
              let progress = raw_progress cfg st now in
              (case easing_func (easing cfg) progress of
                 Inl e \<Rightarrow> goto t (Died e) m
               | Inr eased_progress \<Rightarrow>
                   let v = current_value th r eased_progress in
                   if raises then goto t (AtFor (Suc r)) (emit (UpdateError t r progress v) m)
                   else if 1 \<le> progress then
                     goto t (AtFor (Suc r)) (emit (Update t r progress v) m)
                   else if fps cfg < 0 then
                     goto t (Died ValueError) (emit (Update t r progress v) m)
                   else goto t (AtWhile r st) (emit (Update t r progress v) m))
        | AtCleanup \<Rightarrow>
            goto t AtCompletion
              (if active_animations m (animation_id th) \<noteq> None
               then m\<lparr>active_animations := (active_animations m)(animation_id th := None)\<rparr>
               else m)
        | AtCompletion \<Rightarrow>
            goto t Returned
              (if completion_callback th
               then emit (if raises then CompletionError t else Completion t) m
               else m)
        | Returned \<Rightarrow> m
        | Died e \<Rightarrow> m)"

subsection \<open>Runs\<close>

text \<open>
  What happens to a manager: calls of \<open>animate\<close> and \<open>stop_animation\<close> by the
  owner of the manager, and steps of the animation threads.
\<close>

datatype action =
    Animate string real real "AnimationConfig option" bool
  | Stop string
  | Step thread_id real bool

fun perform :: "action \<Rightarrow> manager \<Rightarrow> error + manager" where
  "perform (Animate aid sv ev cfg cc) m = animate aid sv ev cfg cc m"
| "perform (Stop aid) m = stop_animation aid m"
| "perform (Step t now raises) m = Inr (step_thread t now raises m)"

fun run :: "action list \<Rightarrow> manager \<Rightarrow> error + manager" where
  "run [] m = Inr m"
| "run (a # as) m = (case perform a m of Inl e \<Rightarrow> Inl e | Inr m' \<Rightarrow> run as m')"



text \<open>
  An update was computed by its thread: at the progress it records, the easing function
  of the thread returned a value, and the value of the update is the current value the
  loop derives from it in the repeat iteration it records.
\<close>

definition computed_by :: "manager \<Rightarrow> event \<Rightarrow> bool" where
  "computed_by m ev =
     (case ev of
        Update t r p v \<Rightarrow>
          t < length (threads m) \<and>
          (case easing_func (easing (config (threads m ! t))) p of
             Inl e \<Rightarrow> False
           | Inr eased_progress \<Rightarrow> v = current_value (threads m ! t) r eased_progress)
      | UpdateError t r p v \<Rightarrow> True
      | Completion t \<Rightarrow> True
      | CompletionError t \<Rightarrow> True)"

text \<open>
  The update that thread \<open>t\<close>, with the thread object \<open>th\<close>, makes in repeat \<open>r\<close>
  started at \<open>st\<close> when the clock shows \<open>now\<close>; its value is of interest only
  where the easing function returns one.
\<close>

definition tick :: "thread_id \<Rightarrow> animation_thread \<Rightarrow> nat \<Rightarrow> real \<Rightarrow> real \<Rightarrow> event" where
  "tick t th r st now =
     (let progress = raw_progress (config th) st now
      in Update t r progress
           (case easing_func (easing (config th)) progress of
              Inl e \<Rightarrow> 0
            | Inr eased_progress \<Rightarrow> current_value th r eased_progress))"

fun progress_of :: "event \<Rightarrow> real" where
  "progress_of (Update t r p v) = p"
| "progress_of (UpdateError t r p v) = p"
| "progress_of (Completion t) = 0"
| "progress_of (CompletionError t) = 0"

section \<open>AnimatedWidget.animate_property\<close>

record WidgetConfig =
  width :: int
  height :: int
  background_color :: string
  text_color :: string
  border_radius :: int
  border_width :: int
  border_color :: string
  font_family :: string
  font_size :: int
  animation_duration :: real
  enable_animations :: bool

text \<open>The thread object of \<open>_animate_property_thread\<close> with its arguments.\<close>

record property_thread =
  property_name :: string
  property_start :: real
  property_end :: real
  property_duration :: real
  easing_function :: "real \<Rightarrow> real"
  property_do_run :: bool

text \<open>
  The widget: its configuration, the dictionary \<open>_current_animations\<close>, the thread
  objects it has created, the numeric attributes written with \<open>setattr\<close> (the
  properties a widget animates, which are not the names of the fields above), and the
  number of calls of the abstract method \<open>update_appearance\<close>.
\<close>

record AnimatedWidget =
  widget_config :: WidgetConfig
  current_animations :: "string \<rightharpoonup> nat"
  property_threads :: "property_thread list"
  attributes :: "string \<rightharpoonup> real"
  appearance_updates :: nat

definition setattr :: "AnimatedWidget \<Rightarrow> string \<Rightarrow> real \<Rightarrow> AnimatedWidget" where
  "setattr w name v = w\<lparr>attributes := (attributes w)(name \<mapsto> v)\<rparr>"

definition update_appearance :: "AnimatedWidget \<Rightarrow> AnimatedWidget" where
  "update_appearance w = w\<lparr>appearance_updates := Suc (appearance_updates w)\<rparr>"

text \<open>\<open>AnimatedWidget._ease_out_cubic\<close>: \<open>1 - (1 - t) ** 3\<close>\<close>

definition widget_ease_out_cubic :: "real \<Rightarrow> real" where
  "widget_ease_out_cubic t = fsub 1 (fpow (fsub 1 t) 3)"

text \<open>\<open>x or y\<close> for an optional float: \<open>None\<close> and \<open>0.0\<close> are false.\<close>

definition or_default :: "real option \<Rightarrow> real \<Rightarrow> real" where
  "or_default x y = (case x of None \<Rightarrow> y | Some v \<Rightarrow> if v = 0 then y else v)"

definition animate_property ::
  "string \<Rightarrow> real \<Rightarrow> real \<Rightarrow> real option \<Rightarrow> (real \<Rightarrow> real) option \<Rightarrow> AnimatedWidget \<Rightarrow> AnimatedWidget" where
  "animate_property name sv ev dur ef w =
     (if \<not> enable_animations (widget_config w) then
        update_appearance (setattr w name ev)
      else
        let d = or_default dur (animation_duration (widget_config w));
            f = (case ef of None \<Rightarrow> widget_ease_out_cubic | Some g \<Rightarrow> g);
            ths = (case current_animations w name of
                     None \<Rightarrow> property_threads w
                   | Some i \<Rightarrow>
                       (property_threads w)
                         [i := (property_threads w ! i)\<lparr>property_do_run := False\<rparr>])
        in w\<lparr>property_threads := ths @
                 [\<lparr> property_name = name, property_start = sv, property_end = ev,
                    property_duration = d, easing_function = f, property_do_run = True \<rparr>],
               current_animations := (current_animations w)(name \<mapsto> length ths)\<rparr>)"

section \<open>Configurations used below\<close>

text \<open>A linear fade of one second, played once.\<close>

definition fade_config :: AnimationConfig where
  "fade_config = \<lparr> duration = 1, easing = Kind LINEAR, fps = 60,
     auto_reverse = False, repeat_count = 1, delay = 0 \<rparr>"

text \<open>
  The configuration that \<open>ProgressBar._start_pulse_animation\<close> builds with the default
  style: \<open>repeat_count=-1  # Infinite\<close>.
\<close>

definition pulse_config :: AnimationConfig where
  "pulse_config = \<lparr> duration = 3 / 2, easing = Kind EASE_IN_OUT_QUAD, fps = 60,
     auto_reverse = True, repeat_count = - 1, delay = 0 \<rparr>"

text \<open>
  The manager two steps after \<open>animate("fade", 0.0, 1.0, update, fade_config, done)\<close>:
  the thread is in its \<open>while\<close> loop, started at time 0.
\<close>

definition fade_thread :: "location \<Rightarrow> animation_thread" where
  "fade_thread l = \<lparr> animation_id = ''fade'', start_value = 0, end_value = 1,
     config = fade_config, completion_callback = True, do_run = True, place = l \<rparr>"

definition fade_running :: manager where
  "fade_running = \<lparr> active_animations = [''fade'' \<mapsto> 0],
     threads = [fade_thread (AtWhile 0 0)], events = [] \<rparr>"

text \<open>A ping-pong animation of four iterations with a quadratic ease-in.\<close>

definition pingpong_config :: AnimationConfig where
  "pingpong_config = \<lparr> duration = 1, easing = Kind EASE_IN_QUAD, fps = 60,
     auto_reverse = True, repeat_count = 4, delay = 0 \<rparr>"

definition pingpong_thread :: "location \<Rightarrow> animation_thread" where
  "pingpong_thread l = \<lparr> animation_id = ''pulse'', start_value = 0, end_value = 1,
     config = pingpong_config, completion_callback = False, do_run = True, place = l \<rparr>"

text \<open>A fade from 0 to 1 with the easing \<open>ease_in_back\<close>.\<close>

definition back_config :: AnimationConfig where
  "back_config = \<lparr> duration = 1, easing = Kind EASE_IN_BACK, fps = 60,
     auto_reverse = False, repeat_count = 1, delay = 0 \<rparr>"

text \<open>
  The widget of \<open>test_animate_property_disabled\<close>: the default configuration with
  \<open>enable_animations = False\<close>, and \<open>test_property = 0\<close>.
\<close>

definition plain_widget :: AnimatedWidget where
  "plain_widget = \<lparr> widget_config = \<lparr> width = 120, height = 40, background_color = ''#3498db'',
       text_color = ''#ffffff'', border_radius = 8, border_width = 0, border_color = ''#2c3e50'',
       font_family = ''Arial'', font_size = 12, animation_duration = binary64 (3 / 10),
       enable_animations = False \<rparr>,
     current_animations = Map.empty, property_threads = [],
     attributes = [''test_property'' \<mapsto> 0], appearance_updates = 0 \<rparr>"





text \<open>Thread \<open>t\<close> runs \<open>n\<close> steps on its own, no callback raising.\<close>

fun steps :: "thread_id \<Rightarrow> nat \<Rightarrow> manager \<Rightarrow> manager" where
  "steps t 0 m = m"
| "steps t (Suc n) m = steps t n (step_thread t 0 False m)"

section \<open>Evaluating binary64 arithmetic\<close>

lemma binade_numeral:
  "binade (numeral k) x =
     (if 2 \<le> x then binade (pred_numeral k) (x / 2) + 1
      else if x < 1 then binade (pred_numeral k) (2 * x) - 1
      else 0)"
  by (simp add: numeral_eq_Suc)

lemmas float_eval =
  binade_numeral binary64_def exponent_def rne_def Let_def
  fadd_def fsub_def fmul_def fdiv_def fpow_def py_sqrt_def and_then_def

lemma binary64_0: "binary64 0 = 0"
  by (simp add: binary64_def)

lemma binary64_1: "binary64 1 = 1"
  by (simp add: float_eval)

lemma binary64_2: "binary64 2 = 2"
  by (simp add: float_eval)

lemma binary64_m1: "binary64 (- 1) = - 1"
  by (simp add: float_eval)

lemma c1_value: "c1 = 7663235053941089 / 2 ^ 52"
  by (simp add: c1_def float_eval)

lemma c3_value: "c3 = 6083417340655792 / 2 ^ 51"
  by (simp add: c3_def c1_value float_eval)

lemma c2_value: "c2 = binary64 (7663235053941089 / 2 ^ 52 * binary64 (1525 / 1000))"
  by (simp add: c2_def c1_value fmul_def)

section \<open>Rounding is monotone\<close>

lemma rne_mono: "x \<le> y \<Longrightarrow> rne x \<le> rne y"
proof -
  assume xy: "x \<le> y"
  have fl: "\<lfloor>x\<rfloor> \<le> \<lfloor>y\<rfloor>"
    using xy by (rule floor_mono)
  have lo: "\<lfloor>y\<rfloor> \<le> rne y" and hi: "rne x \<le> \<lfloor>x\<rfloor> + 1"
    by (simp_all add: rne_def Let_def)
  show ?thesis
  proof (cases "\<lfloor>x\<rfloor> = \<lfloor>y\<rfloor>")
    case True
    then show ?thesis
      using xy by (auto simp: rne_def Let_def)
  next
    case False
    then show ?thesis
      using fl lo hi by linarith
  qed
qed

lemma rne_of_int [simp]: "rne (of_int k) = k"
  by (simp add: rne_def)

lemma rne_ge: "of_int k \<le> x \<Longrightarrow> k \<le> rne x"
  using rne_mono [of "of_int k" x] by simp

lemma rne_le: "x \<le> of_int k \<Longrightarrow> rne x \<le> k"
  using rne_mono [of x "of_int k"] by simp

lemma binade_bounds:
  assumes "0 < x"
  shows "- int n \<le> binade n x \<and> binade n x \<le> int n \<and>
         (- int n < binade n x \<longrightarrow> 2 powi binade n x \<le> x) \<and>
         (binade n x < int n \<longrightarrow> x < 2 powi (binade n x + 1))"
  using assms
proof (induction n arbitrary: x)
  case 0
  then show ?case by simp
next
  case (Suc n)
  show ?case
  proof (cases "2 \<le> x")
    case True
    let ?e = "binade n (x / 2)"
    have IH: "- int n \<le> ?e \<and> ?e \<le> int n \<and>
         (- int n < ?e \<longrightarrow> 2 powi ?e \<le> x / 2) \<and>
         (?e < int n \<longrightarrow> x / 2 < 2 powi (?e + 1))"
      using Suc.IH [of "x / 2"] Suc.prems by simp
    have e: "binade (Suc n) x = ?e + 1"
      using True by simp
    have lower: "2 powi (?e + 1) \<le> x"
    proof (cases "- int n < ?e")
      case True
      then have "2 powi ?e \<le> x / 2" using IH by simp
      then show ?thesis by (simp add: power_int_add)
    next
      case False
      then have "?e = - int n" using IH by simp
      then have "?e + 1 \<le> 1" by simp
      then have "(2::real) powi (?e + 1) \<le> 2 powi 1"
        by (intro power_int_increasing) simp_all
      then show ?thesis using \<open>2 \<le> x\<close> by simp
    qed
    have upper: "?e < int n \<longrightarrow> x < 2 powi (?e + 1 + 1)"
      using IH by (auto simp: power_int_add)
    show ?thesis
      unfolding e using IH lower upper by auto
  next
    case False
    show ?thesis
    proof (cases "x < 1")
      case True
      let ?e = "binade n (2 * x)"
      have IH: "- int n \<le> ?e \<and> ?e \<le> int n \<and>
         (- int n < ?e \<longrightarrow> 2 powi ?e \<le> 2 * x) \<and>
         (?e < int n \<longrightarrow> 2 * x < 2 powi (?e + 1))"
        using Suc.IH [of "2 * x"] Suc.prems by simp
      have e: "binade (Suc n) x = ?e - 1"
        using True False by simp
      have upper: "x < 2 powi (?e - 1 + 1)"
      proof (cases "?e < int n")
        case True
        then have "2 * x < 2 powi (?e + 1)" using IH by simp
        then show ?thesis by (simp add: power_int_add)
      next
        case False
        then have "0 \<le> ?e" using IH by simp
        then have "(2::real) powi 0 \<le> 2 powi ?e"
          by (intro power_int_increasing) simp_all
        then show ?thesis using \<open>x < 1\<close> by simp
      qed
      have lower: "- int n < ?e \<longrightarrow> 2 powi (?e - 1) \<le> x"
        using IH by (auto simp: power_int_diff)
      show ?thesis
        unfolding e using IH lower upper by auto
    next
      case False
      with \<open>\<not> 2 \<le> x\<close> show ?thesis by simp
    qed
  qed
qed


lemma exponent_bounds:
  assumes "0 < x"
  shows "- 1022 \<le> exponent x" and "exponent x \<le> 1023"
    and "- 1022 < exponent x \<Longrightarrow> 2 powi exponent x \<le> x"
    and "exponent x < 1023 \<Longrightarrow> x < 2 powi (exponent x + 1)"
proof -
  let ?b = "binade 1100 \<bar>x\<bar>"
  have b: "(- int 1100 < ?b \<longrightarrow> 2 powi ?b \<le> x) \<and> (?b < int 1100 \<longrightarrow> x < 2 powi (?b + 1))"
    using binade_bounds [of "\<bar>x\<bar>" 1100] assms by simp
  show "- 1022 \<le> exponent x" "exponent x \<le> 1023"
    by (simp_all add: exponent_def)
  show "2 powi exponent x \<le> x" if "- 1022 < exponent x"
  proof -
    from that have le: "exponent x \<le> ?b" and "- int 1100 < ?b"
      by (auto simp: exponent_def)
    then have "2 powi ?b \<le> x" using b by simp
    moreover have "(2::real) powi exponent x \<le> 2 powi ?b"
      using le by (intro power_int_increasing) simp_all
    ultimately show ?thesis by simp
  qed
  show "x < 2 powi (exponent x + 1)" if "exponent x < 1023"
  proof -
    from that have le: "?b \<le> exponent x" and "?b < int 1100"
      by (auto simp: exponent_def)
    then have "x < 2 powi (?b + 1)" using b by simp
    moreover have "(2::real) powi (?b + 1) \<le> 2 powi (exponent x + 1)"
      using le by (intro power_int_increasing) simp_all
    ultimately show ?thesis by simp
  qed
qed

lemma exponent_mono:
  assumes "0 < x" and "x \<le> y"
  shows "exponent x \<le> exponent y"
proof (rule ccontr)
  assume "\<not> exponent x \<le> exponent y"
  then have lt: "exponent y < exponent x" by simp
  have y: "0 < y" using assms by simp
  have "- 1022 < exponent x"
    using lt exponent_bounds(1) [OF y] by simp
  then have 1: "2 powi exponent x \<le> x"
    by (rule exponent_bounds(3) [OF assms(1)])
  have "exponent y < 1023"
    using lt exponent_bounds(2) [OF assms(1)] by simp
  then have 2: "y < 2 powi (exponent y + 1)"
    by (rule exponent_bounds(4) [OF y])
  have "(2::real) powi (exponent y + 1) \<le> 2 powi exponent x"
    using lt by (intro power_int_increasing) simp_all
  with 1 2 assms(2) show False by simp
qed

lemma binary64_pos:
  assumes "0 < x"
  shows "binary64 x = of_int (rne (x / 2 powi (exponent x - 52))) * 2 powi (exponent x - 52)"
  using assms by (simp add: binary64_def Let_def)

lemma binary64_minus: "binary64 (- x) = - binary64 x"
  by (simp add: binary64_def Let_def exponent_def sgn_minus)

lemma binary64_nonneg:
  assumes "0 \<le> x"
  shows "0 \<le> binary64 x"
proof (cases "x = 0")
  case True
  then show ?thesis by (simp add: binary64_def)
next
  case False
  then have x: "0 < x" using assms by simp
  have "0 \<le> x / 2 powi (exponent x - 52)"
    using x by simp
  then have "0 \<le> rne (x / 2 powi (exponent x - 52))"
    using rne_ge [of 0] by simp
  then show ?thesis
    by (simp add: binary64_pos [OF x])
qed

lemma binary64_mono_pos:
  assumes "0 < x" and "x \<le> y"
  shows "binary64 x \<le> binary64 y"
proof -
  have y: "0 < y" using assms by simp
  let ?ex = "exponent x" and ?ey = "exponent y"
  have le: "?ex \<le> ?ey"
    using assms by (rule exponent_mono)
  show ?thesis
  proof (cases "?ex = ?ey")
    case True
    have "x / 2 powi (?ey - 52) \<le> y / 2 powi (?ey - 52)"
      using assms(2) by (simp add: divide_right_mono)
    then have "rne (x / 2 powi (?ey - 52)) \<le> rne (y / 2 powi (?ey - 52))"
      by (rule rne_mono)
    then show ?thesis
      by (simp add: binary64_pos [OF assms(1)] binary64_pos [OF y] True mult_right_mono)
  next
    case False
    then have lt: "?ex < ?ey" using le by simp
    have "?ex < 1023"
      using lt exponent_bounds(2) [OF y] by simp
    then have "x < 2 powi (?ex + 1)"
      by (rule exponent_bounds(4) [OF assms(1)])
    then have "x / 2 powi (?ex - 52) \<le> 2 powi (?ex + 1) / 2 powi (?ex - 52)"
      by (simp add: divide_right_mono)
    also have "\<dots> = 2 powi 53"
      by (simp add: power_int_diff [symmetric])
    finally have "x / 2 powi (?ex - 52) \<le> of_int (2 ^ 53)"
      by simp
    then have "rne (x / 2 powi (?ex - 52)) \<le> 2 ^ 53"
      by (rule rne_le)
    then have "real_of_int (rne (x / 2 powi (?ex - 52))) \<le> real_of_int (2 ^ 53)"
      by (simp only: of_int_le_iff)
    then have "of_int (rne (x / 2 powi (?ex - 52))) * 2 powi (?ex - 52) \<le>
        (of_int (2 ^ 53) :: real) * 2 powi (?ex - 52)"
      by (rule mult_right_mono) simp
    also have "\<dots> = 2 powi (?ex + 1)"
      using power_int_add [of "2::real" 53 "?ex - 52"] by (simp add: add.commute)
    finally have up: "binary64 x \<le> 2 powi (?ex + 1)"
      by (simp add: binary64_pos [OF assms(1)])
    have "- 1022 < ?ey"
      using lt exponent_bounds(1) [OF assms(1)] by simp
    then have "2 powi ?ey \<le> y"
      by (rule exponent_bounds(3) [OF y])
    then have "2 powi ?ey / 2 powi (?ey - 52) \<le> y / 2 powi (?ey - 52)"
      by (simp add: divide_right_mono)
    moreover have "(2::real) powi ?ey / 2 powi (?ey - 52) = 2 powi 52"
      by (simp add: power_int_diff [symmetric])
    ultimately have "of_int (2 ^ 52) \<le> y / 2 powi (?ey - 52)"
      by simp
    then have "2 ^ 52 \<le> rne (y / 2 powi (?ey - 52))"
      by (rule rne_ge)
    then have r52: "real_of_int (2 ^ 52) \<le> real_of_int (rne (y / 2 powi (?ey - 52)))"
      by (simp only: of_int_le_iff)
    have "(2::real) powi ?ey = of_int (2 ^ 52) * 2 powi (?ey - 52)"
      using power_int_add [of "2::real" 52 "?ey - 52"] by simp
    also have "\<dots> \<le> of_int (rne (y / 2 powi (?ey - 52))) * 2 powi (?ey - 52)"
      using r52 by (rule mult_right_mono) simp
    finally have low: "2 powi ?ey \<le> binary64 y"
      by (simp add: binary64_pos [OF y])
    have "(2::real) powi (?ex + 1) \<le> 2 powi ?ey"
      using lt by (intro power_int_increasing) simp_all
    with up low show ?thesis by simp
  qed
qed

lemma binary64_mono:
  assumes "x \<le> y"
  shows "binary64 x \<le> binary64 y"
proof -
  consider "0 < x" | "x \<le> 0" "0 \<le> y" | "y < 0"
    using assms by linarith
  then show ?thesis
  proof cases
    case 1
    then show ?thesis using assms by (rule binary64_mono_pos)
  next
    case 2
    have "binary64 x = - binary64 (- x)"
      by (simp add: binary64_minus)
    moreover have "0 \<le> binary64 (- x)"
      using 2(1) by (intro binary64_nonneg) simp
    ultimately show ?thesis
      using binary64_nonneg [OF 2(2)] by simp
  next
    case 3
    then have "binary64 (- y) \<le> binary64 (- x)"
      using assms by (intro binary64_mono_pos) simp_all
    then show ?thesis
      by (simp add: binary64_minus)
  qed
qed

section \<open>Boundary values of the easing functions\<close>

lemma quad_cubic_at_0:
  "linear_ease 0 = Inr 0" "ease_in_quad 0 = Inr 0" "ease_out_quad 0 = Inr 0"
  "ease_in_out_quad 0 = Inr 0" "ease_in_cubic 0 = Inr 0" "ease_out_cubic 0 = Inr 0"
  "ease_in_out_cubic 0 = Inr 0"
  by (simp_all add: linear_ease_def ease_in_quad_def ease_out_quad_def ease_in_out_quad_def
      ease_in_cubic_def ease_out_cubic_def ease_in_out_cubic_def float_eval)

lemma quad_cubic_at_1:
  "linear_ease 1 = Inr 1" "ease_in_quad 1 = Inr 1" "ease_out_quad 1 = Inr 1"
  "ease_in_out_quad 1 = Inr 1" "ease_in_cubic 1 = Inr 1" "ease_out_cubic 1 = Inr 1"
  "ease_in_out_cubic 1 = Inr 1"
  by (simp_all add: linear_ease_def ease_in_quad_def ease_out_quad_def ease_in_out_quad_def
      ease_in_cubic_def ease_out_cubic_def ease_in_out_cubic_def float_eval)

lemma bounce_elastic_at_0: "bounce_out 0 = Inr 0" "elastic_out 0 = Inr 0"
  by (simp_all add: bounce_out_def elastic_out_def float_eval)

lemma bounce_out_at_1: "bounce_out 1 = Inr 1"
  by (simp add: bounce_out_def float_eval)

lemma elastic_out_at_1: "elastic_out 1 = Inr 1"
  by (simp add: elastic_out_def)

lemma circ_at_0: "ease_in_circ 0 = Inr 0" "ease_out_circ 0 = Inr 0" "ease_in_out_circ 0 = Inr 0"
  by (simp_all add: ease_in_circ_def ease_out_circ_def ease_in_out_circ_def float_eval)

lemma circ_at_1: "ease_in_circ 1 = Inr 1" "ease_out_circ 1 = Inr 1" "ease_in_out_circ 1 = Inr 1"
  by (simp_all add: ease_in_circ_def ease_out_circ_def ease_in_out_circ_def float_eval)

lemma ease_in_back_at_0: "ease_in_back 0 = Inr 0"
  by (simp add: ease_in_back_def fmul_def fsub_def binary64_0)

lemma ease_in_back_at_1: "ease_in_back 1 = Inr (1 - 2 powi (- 52))"
  by (simp add: ease_in_back_def c1_value c3_value float_eval)

lemma ease_out_back_at_0: "ease_out_back 0 = Inr (2 powi (- 52))"
  by (simp add: ease_out_back_def c1_value c3_value float_eval)

lemma ease_out_back_at_1: "ease_out_back 1 = Inr 1"
  by (simp add: ease_out_back_def fmul_def fsub_def fadd_def fpow_def binary64_0 binary64_1)

lemma ease_in_out_back_at_0: "ease_in_out_back 0 = Inr 0"
  by (simp add: ease_in_out_back_def fmul_def fdiv_def binary64_0)

lemma ease_in_out_back_at_1: "ease_in_out_back 1 = Inr 1"
  by (simp add: ease_in_out_back_def fmul_def fsub_def fadd_def fdiv_def fpow_def
      binary64_0 binary64_1 binary64_2)

text \<open>
  Claim C7, as stated: every easing kind maps 0 to exactly 0 and 1 to exactly 1.
  It fails for \<open>ease_in_back\<close> at 1: \<open>c1 = 1.70158\<close> is not a binary64 number, the
  sum \<open>c3 = c1 + 1\<close> loses its last bit, and \<open>c3 - c1\<close> is \<open>1 - 2 ^ -52\<close>
  (Python prints \<open>0.9999999999999998\<close>).
\<close>

theorem ease_in_back_misses_one: "easing_func (Kind EASE_IN_BACK) 1 \<noteq> Inr 1"
  by (simp add: ease_in_back_at_1)

text \<open>
  Claim C7, amended: every easing kind maps 0 to exactly 0 and 1 to exactly 1, except
  that \<open>ease_out_back\<close> maps 0 to \<open>2 ^ -52\<close> and \<open>ease_in_back\<close> maps 1 to
  \<open>1 - 2 ^ -52\<close>, one rounding error of \<open>c1 + 1\<close> away; \<open>elastic_out\<close> returns its
  argument at 0 and 1.
\<close>

theorem easing_boundary_values:
  "easing_func (Kind k) 0 = Inr (if k = EASE_OUT_BACK then 2 powi (- 52) else 0) \<and>
   easing_func (Kind k) 1 = Inr (if k = EASE_IN_BACK then 1 - 2 powi (- 52) else 1)"
  by (cases k)
    (simp_all only: easing_func.simps easing_functions.simps quad_cubic_at_0 quad_cubic_at_1
      bounce_elastic_at_0 bounce_out_at_1 elastic_out_at_1 circ_at_0 circ_at_1
      ease_in_back_at_0 ease_in_back_at_1 ease_out_back_at_0 ease_out_back_at_1
      ease_in_out_back_at_0 ease_in_out_back_at_1 EasingType.distinct if_True if_False
      simp_thms)

theorem easing_boundary_values_witness:
  "easing_func (Kind EASE_OUT_BACK) 0 = Inr (2 powi (- 52)) \<and>
   easing_func (Kind EASE_OUT_BACK) 1 = Inr 1"
  using easing_boundary_values [of EASE_OUT_BACK] by simp

section \<open>Evaluating runs\<close>

lemmas run_eval =
  animate_def stop_animation_def py_getitem_def py_delitem_def set_do_run_def
  step_thread_def goto_def emit_def manager_init_def Let_def is_animating_def

lemma fade_config_fields:
  "easing_func (easing fade_config) = linear_ease" "duration fade_config = 1"
  "fps fade_config = 60" "repeat_count fade_config = 1" "auto_reverse fade_config = False"
  by (simp_all add: fade_config_def)

lemma fade_progress:
  "raw_progress fade_config 0 0 = 0" "raw_progress fade_config 0 (1 / 4) = 1 / 4"
  "raw_progress fade_config 0 (1 / 2) = 1 / 2" "raw_progress fade_config 0 1 = 1"
  "raw_progress fade_config 0 2 = 1"
  by (simp_all add: raw_progress_def fade_config_def float_eval)

lemma fade_value:
  "current_value (fade_thread l) r 0 = 0" "current_value (fade_thread l) r (1 / 4) = 1 / 4"
  "current_value (fade_thread l) r (1 / 2) = 1 / 2" "current_value (fade_thread l) r 1 = 1"
  by (simp_all add: current_value_def fade_thread_def fade_config_def float_eval)

lemma fade_running_reached:
  "run [Animate ''fade'' 0 1 (Some fade_config) True, Step 0 0 False, Step 0 0 False]
     manager_init = Inr fade_running"
  by (simp add: run_eval fade_config_fields fade_running_def fade_thread_def)

section \<open>Stopping an animation\<close>

lemma stop_animation_total: "\<exists>m'. stop_animation aid m = Inr m'"
  by (auto simp: stop_animation_def py_getitem_def py_delitem_def split: option.splits)

lemma stop_animation_events: "stop_animation aid m = Inr m' \<Longrightarrow> events m' = events m"
  by (auto simp: stop_animation_def py_getitem_def py_delitem_def
      split: option.splits if_splits)

lemma stop_animation_unregisters:
  "stop_animation aid m = Inr m' \<Longrightarrow> active_animations m' = (active_animations m)(aid := None)"
  by (auto simp: stop_animation_def py_getitem_def py_delitem_def
      split: option.splits if_splits)

lemma stop_animation_length:
  "stop_animation aid m = Inr m' \<Longrightarrow> length (threads m') = length (threads m)"
  by (auto simp: stop_animation_def py_getitem_def py_delitem_def set_do_run_def
      split: option.splits if_splits)

lemma stop_animation_unknown:
  "active_animations m aid = None \<Longrightarrow> stop_animation aid m = Inr m"
  by (simp add: stop_animation_def)

text \<open>
  Claim C9: \<open>stop_animation\<close> never raises and calls no callback, whether the
  identifier is registered or not; a second call with the same identifier, and a call
  with an identifier that is not registered (unknown, or removed when its animation
  finished), change nothing at all.
\<close>

theorem stop_animation_idempotent:
  "\<exists>m'. stop_animation aid m = Inr m' \<and> events m' = events m \<and>
        stop_animation aid m' = Inr m' \<and>
        (active_animations m aid = None \<longrightarrow> m' = m)"
proof -
  obtain m' where m': "stop_animation aid m = Inr m'"
    using stop_animation_total by blast
  have "active_animations m' aid = None"
    using stop_animation_unregisters [OF m'] by simp
  then have "stop_animation aid m' = Inr m'"
    by (rule stop_animation_unknown)
  moreover have "active_animations m aid = None \<longrightarrow> m' = m"
    using m' by (auto simp: stop_animation_unknown)
  ultimately show ?thesis
    using m' stop_animation_events [OF m'] by simp
qed

theorem stop_animation_idempotent_witness:
  "stop_animation ''fade'' manager_init = Inr manager_init \<and> events manager_init = []"
  using stop_animation_idempotent [of "''fade''" manager_init]
  by (auto simp: manager_init_def)

section \<open>Starting an animation\<close>

lemma animate_registers:
  "\<exists>m'. animate aid sv ev cfg cc m = Inr m' \<and>
        active_animations m' aid = Some (length (threads m)) \<and>
        length (threads m') = Suc (length (threads m)) \<and>
        config (threads m' ! length (threads m)) =
          (case cfg of None \<Rightarrow> default_config | Some c \<Rightarrow> c) \<and>
        do_run (threads m' ! length (threads m)) \<and>
        place (threads m' ! length (threads m)) = AtStart \<and>
        events m' = events m"
proof -
  obtain m1 where m1: "stop_animation aid m = Inr m1"
    using stop_animation_total by blast
  show ?thesis
    using m1 stop_animation_length [OF m1] stop_animation_events [OF m1]
    by (simp add: animate_def nth_append)
qed




section \<open>The repeat count\<close>

text \<open>
  \<open>range(n)\<close> is empty for \<open>n \<le> 0\<close>: the thread never enters its \<open>for\<close> loop. After the
  delay it removes its registration and calls the completion callback.
\<close>

lemma nonpositive_repeat_count_completes_at_once:
  assumes "repeat_count cfg \<le> 0" and "fps cfg \<noteq> 0"
  shows "run [Animate aid sv ev (Some cfg) True,
              Step 0 t0 b0, Step 0 t1 b1, Step 0 t2 b2, Step 0 t3 False] manager_init =
         Inr \<lparr> active_animations = Map.empty,
               threads = [\<lparr> animation_id = aid, start_value = sv, end_value = ev, config = cfg,
                 completion_callback = True, do_run = True, place = Returned \<rparr>],
               events = [Completion 0] \<rparr>"
  using assms by (simp add: run_eval)

text \<open>
  Claim C5: an animation started with the repeat count 0 or -1 repeats until it is
  stopped, and its completion callback does not fire before a stop. The code does
  otherwise on the configuration of \<open>ProgressBar._start_pulse_animation\<close>
  (\<open>repeat_count=-1  # Infinite\<close>): without any stop, and without a single update, the
  animation is over after four steps, unregistered, its completion callback called.
\<close>

theorem infinite_pulse_completes_at_once:
  "run [Animate ''pulse'' 0 (binary64 (3 / 10)) (Some pulse_config) True,
        Step 0 0 False, Step 0 0 False, Step 0 0 False, Step 0 0 False] manager_init =
   Inr \<lparr> active_animations = Map.empty,
         threads = [\<lparr> animation_id = ''pulse'', start_value = 0, end_value = binary64 (3 / 10),
           config = pulse_config, completion_callback = True, do_run = True, place = Returned \<rparr>],
         events = [Completion 0] \<rparr>"
  by (rule nonpositive_repeat_count_completes_at_once) (simp_all add: pulse_config_def)

section \<open>An update callback that raises\<close>

text \<open>
  Claim C4, as stated: an exception of the update callback is a dropped frame, and the
  loop continues with the next tick. It does not: a linear fade whose callback raises at
  the tick of progress 1/4 makes no further tick, although the clock goes on to 1, and
  then calls the completion callback.
\<close>

theorem update_exception_ends_the_ticks:
  "run [Animate ''fade'' 0 1 (Some fade_config) True,
        Step 0 0 False, Step 0 0 False, Step 0 (1 / 4) True,
        Step 0 (1 / 2) False, Step 0 (3 / 4) False, Step 0 1 False] manager_init =
   Inr \<lparr> active_animations = Map.empty,
         threads = [fade_thread Returned],
         events = [UpdateError 0 0 (1 / 4) (1 / 4), Completion 0] \<rparr>"
  by (simp add: run_eval fade_config_fields fade_progress fade_value [unfolded fade_thread_def]
      fade_thread_def linear_ease_def)

lemma step_in_while_raising:
  assumes "t < length (threads m)" and "place (threads m ! t) = AtWhile r st"
    and "do_run (threads m ! t)" and "duration (config (threads m ! t)) \<noteq> 0"
    and "easing_func (easing (config (threads m ! t)))
           (raw_progress (config (threads m ! t)) st now) = Inr e"
  shows "step_thread t now True m =
    goto t (AtFor (Suc r))
      (emit (UpdateError t r (raw_progress (config (threads m ! t)) st now)
               (current_value (threads m ! t) r e)) m)"
  using assms by (simp add: step_thread_def Let_def)

text \<open>
  Claim C4, amended: an exception of the update callback is caught at the call and
  reported, and it ends the current repeat iteration (\<open>break\<close>): the thread goes on
  with the next repeat iteration if there is one, and with the clean-up and the
  completion callback otherwise. The exception never ends the thread, and the registry
  is left as it was.
\<close>

theorem update_exception_breaks_iteration:
  assumes "t < length (threads m)" and "place (threads m ! t) = AtWhile r st"
    and "do_run (threads m ! t)" and "duration (config (threads m ! t)) \<noteq> 0"
    and "easing_func (easing (config (threads m ! t)))
           (raw_progress (config (threads m ! t)) st now) = Inr e"
  shows "place (threads (step_thread t now True m) ! t) = AtFor (Suc r) \<and>
         events (step_thread t now True m) =
           events m @ [UpdateError t r (raw_progress (config (threads m ! t)) st now)
                         (current_value (threads m ! t) r e)] \<and>
         active_animations (step_thread t now True m) = active_animations m \<and>
         place (threads (step_thread t now' b (step_thread t now True m)) ! t) =
           (if int (Suc r) < repeat_count (config (threads m ! t))
            then AtWhile (Suc r) now' else AtCleanup)"
proof -
  let ?m' = "step_thread t now True m"
  have m': "?m' = goto t (AtFor (Suc r))
      (emit (UpdateError t r (raw_progress (config (threads m ! t)) st now)
               (current_value (threads m ! t) r e)) m)"
    using assms by (rule step_in_while_raising)
  have 1: "place (threads ?m' ! t) = AtFor (Suc r)"
    using assms(1) by (simp add: m' goto_def emit_def)
  have 2: "config (threads ?m' ! t) = config (threads m ! t)"
    "length (threads ?m') = length (threads m)"
    using assms(1) by (simp_all add: m' goto_def emit_def)
  have 3: "place (threads (step_thread t now' b ?m') ! t) =
           (if int (Suc r) < repeat_count (config (threads m ! t))
            then AtWhile (Suc r) now' else AtCleanup)"
    using assms(1) 1 2 by (simp add: step_thread_def [of t now' b ?m'] Let_def goto_def)
  show ?thesis
    using 1 3 by (simp add: m' goto_def emit_def)
qed

theorem update_exception_breaks_iteration_witness:
  "place (threads (step_thread 0 (1 / 4) True fade_running) ! 0) = AtFor 1 \<and>
   events (step_thread 0 (1 / 4) True fade_running) = [UpdateError 0 0 (1 / 4) (1 / 4)] \<and>
   active_animations (step_thread 0 (1 / 4) True fade_running) = [''fade'' \<mapsto> 0] \<and>
   place (threads (step_thread 0 (1 / 2) False (step_thread 0 (1 / 4) True fade_running)) ! 0) =
     AtCleanup"
  using update_exception_breaks_iteration [of 0 fade_running 0 0 "1 / 4" "1 / 4" "1 / 2" False]
  by (simp add: fade_running_def fade_thread_def fade_config_fields fade_progress
      fade_value [unfolded fade_thread_def] linear_ease_def)

section \<open>Widgets with animations disabled\<close>

text \<open>
  Claim C10: when \<open>config.enable_animations\<close> is false, \<open>animate_property\<close> sets
  the attribute to the end value, calls \<open>update_appearance\<close> once, creates no thread
  and leaves \<open>_current_animations\<close> as it was.
\<close>

theorem animate_property_without_animations:
  assumes "\<not> enable_animations (widget_config w)"
  shows "attributes (animate_property name sv ev dur ef w) = (attributes w)(name \<mapsto> ev) \<and>
         appearance_updates (animate_property name sv ev dur ef w) = Suc (appearance_updates w) \<and>
         current_animations (animate_property name sv ev dur ef w) = current_animations w \<and>
         property_threads (animate_property name sv ev dur ef w) = property_threads w \<and>
         widget_config (animate_property name sv ev dur ef w) = widget_config w"
  using assms by (simp add: animate_property_def setattr_def update_appearance_def)

theorem animate_property_without_animations_witness:
  "\<not> enable_animations (widget_config plain_widget) \<and>
   attributes (animate_property ''test_property'' 0 100 None None plain_widget) ''test_property'' =
     Some 100 \<and>
   appearance_updates (animate_property ''test_property'' 0 100 None None plain_widget) = 1 \<and>
   current_animations (animate_property ''test_property'' 0 100 None None plain_widget) =
     Map.empty \<and>
   property_threads (animate_property ''test_property'' 0 100 None None plain_widget) = []"
  using animate_property_without_animations [of plain_widget "''test_property''" 0 100 None None]
  by (simp add: plain_widget_def)

section \<open>Cancelled threads\<close>

lemma step_thread_length [simp]: "length (threads (step_thread t now b m)) = length (threads m)"
  by (simp add: step_thread_def goto_def emit_def Let_def split: location.splits sum.splits)

lemma step_thread_do_run [simp]:
  "do_run (threads (step_thread t now b m) ! u) = do_run (threads m ! u)"
  by (cases "u = t")
    (simp_all add: step_thread_def goto_def emit_def Let_def split: location.splits sum.splits)








subsection \<open>A cancelled thread still calls its completion callback\<close>

lemma steps_add: "steps t (a + b) m = steps t b (steps t a m)"
  by (induction a arbitrary: m) simp_all









lemma stop_animation_thread:
  assumes "stop_animation aid m = Inr m'" and "u < length (threads m)"
  shows "threads m' ! u =
    (threads m ! u)\<lparr>do_run := do_run (threads m ! u) \<and> active_animations m aid \<noteq> Some u\<rparr>"
  using assms
  by (auto simp: stop_animation_def py_getitem_def py_delitem_def set_do_run_def nth_list_update
      split: option.splits if_splits)

lemma animate_thread:
  assumes "animate aid sv ev cfg cc m = Inr m'" and "u < length (threads m)"
  shows "threads m' ! u =
    (threads m ! u)\<lparr>do_run := do_run (threads m ! u) \<and> active_animations m aid \<noteq> Some u\<rparr>"
proof -
  obtain m1 where m1: "stop_animation aid m = Inr m1"
    using stop_animation_total by blast
  have "threads m' = threads m1 @
      [\<lparr> animation_id = aid, start_value = sv, end_value = ev,
         config = (case cfg of None \<Rightarrow> default_config | Some c \<Rightarrow> c),
         completion_callback = cc, do_run = True, place = AtStart \<rparr>]"
    using assms(1) m1 by (auto simp: animate_def)
  then show ?thesis
    using stop_animation_thread [OF m1 assms(2)] stop_animation_length [OF m1] assms(2)
    by (simp add: nth_append)
qed

section \<open>After a stop\<close>





section \<open>Starting an animation again\<close>




section \<open>Repeat and reverse\<close>

lemma step_thread_args [simp]:
  "config (threads (step_thread t now b m) ! u) = config (threads m ! u)"
  "start_value (threads (step_thread t now b m) ! u) = start_value (threads m ! u)"
  "end_value (threads (step_thread t now b m) ! u) = end_value (threads m ! u)"
  by (cases "u = t";
      simp add: step_thread_def goto_def emit_def Let_def split: location.splits sum.splits)+

lemma computed_by_later:
  assumes "computed_by m ev" and "length (threads m) \<le> length (threads m')"
    and "\<And>u. u < length (threads m) \<Longrightarrow>
           config (threads m' ! u) = config (threads m ! u) \<and>
           start_value (threads m' ! u) = start_value (threads m ! u) \<and>
           end_value (threads m' ! u) = end_value (threads m ! u)"
  shows "computed_by m' ev"
  using assms by (cases ev) (auto simp: computed_by_def current_value_def split: sum.splits)

lemma step_thread_events:
  "events (step_thread t now b m) = events m \<or>
   (\<exists>ev. events (step_thread t now b m) = events m @ [ev] \<and> computed_by m ev)"
  by (auto simp: step_thread_def goto_def emit_def Let_def computed_by_def
      split: location.splits sum.splits)

lemma perform_computed_by:
  assumes "perform a m = Inr m'" and "\<forall>ev \<in> set (events m). computed_by m ev"
  shows "\<forall>ev \<in> set (events m'). computed_by m' ev"
proof (cases a)
  case (Animate aid sv ev cfg cc)
  then have a: "animate aid sv ev cfg cc m = Inr m'"
    using assms(1) by simp
  have "events m' = events m" and "length (threads m) \<le> length (threads m')"
    using animate_registers [of aid sv ev cfg cc m] a by auto
  then show ?thesis
    using assms(2) animate_thread [OF a] by (auto intro!: computed_by_later [of m _ m'])
next
  case (Stop aid)
  then have s: "stop_animation aid m = Inr m'"
    using assms(1) by simp
  show ?thesis
    using assms(2) stop_animation_events [OF s] stop_animation_length [OF s]
      stop_animation_thread [OF s]
    by (auto intro!: computed_by_later [of m _ m'])
next
  case (Step t now b)
  then have m': "m' = step_thread t now b m"
    using assms(1) by simp
  have later: "computed_by m' ev" if "computed_by m ev" for ev
    using that unfolding m' by (rule computed_by_later) simp_all
  show ?thesis
    using step_thread_events [of t now b m] assms(2) later by (auto simp: m' [symmetric])
qed

lemma run_computed_by:
  assumes "run acts m = Inr m'" and "\<forall>ev \<in> set (events m). computed_by m ev"
  shows "\<forall>ev \<in> set (events m'). computed_by m' ev"
  using assms
proof (induction acts arbitrary: m)
  case Nil
  then show ?case by simp
next
  case (Cons a acts)
  then obtain m1 where m1: "perform a m = Inr m1" and r: "run acts m1 = Inr m'"
    by (auto split: sum.splits)
  from Cons.IH [OF r perform_computed_by [OF m1 Cons.prems(2)]] show ?case .
qed

text \<open>
  Claim C8: in an animation with \<open>auto_reverse\<close>, every value delivered in repeat
  iteration \<open>r\<close> is interpolated with the eased progress \<open>e\<close> when \<open>r\<close> is even and
  with \<open>1 - e\<close> when \<open>r\<close> is odd, where \<open>e\<close> is the easing function applied to the
  raw progress of the tick: the reversal is applied to the eased value, not to the time.
  This holds for every update of every run of a manager.
\<close>

theorem auto_reverse_parity:
  assumes "run acts manager_init = Inr m" and "Update t r p v \<in> set (events m)"
    and "auto_reverse (config (threads m ! t))"
  shows "\<exists>e. easing_func (easing (config (threads m ! t))) p = Inr e \<and>
             v = fadd (start_value (threads m ! t))
                   (fmul (fsub (end_value (threads m ! t)) (start_value (threads m ! t)))
                      (if even r then e else fsub 1 e))"
proof -
  have "\<forall>ev \<in> set (events m). computed_by m ev"
    using assms(1) by (rule run_computed_by) (simp add: manager_init_def)
  then have "computed_by m (Update t r p v)"
    using assms(2) by blast
  then show ?thesis
    using assms(3)
    by (auto simp: computed_by_def current_value_def even_iff_mod_2_eq_zero split: sum.splits)
qed


text \<open>
  With \<open>repeat_count = 4\<close>: two ticks in each iteration, at raw progress 1/2 and 1. The
  quadratic ease-in gives \<open>e = 1/4\<close> and \<open>e = 1\<close>; iterations 0 and 2 deliver \<open>e\<close>,
  iterations 1 and 3 deliver \<open>1 - e\<close>.
\<close>

lemma pingpong_config_fields:
  "easing_func (easing pingpong_config) = ease_in_quad" "duration pingpong_config = 1"
  "fps pingpong_config = 60" "repeat_count pingpong_config = 4"
  "auto_reverse pingpong_config = True"
  by (simp_all add: pingpong_config_def)

lemma pingpong_progress:
  "raw_progress pingpong_config 0 (1 / 2) = 1 / 2" "raw_progress pingpong_config 0 1 = 1"
  "raw_progress pingpong_config 2 (5 / 2) = 1 / 2" "raw_progress pingpong_config 2 3 = 1"
  "raw_progress pingpong_config 4 (9 / 2) = 1 / 2" "raw_progress pingpong_config 4 5 = 1"
  "raw_progress pingpong_config 6 (13 / 2) = 1 / 2" "raw_progress pingpong_config 6 7 = 1"
  by (simp_all add: raw_progress_def pingpong_config_def float_eval)

lemma ease_in_quad_half: "ease_in_quad (1 / 2) = Inr (1 / 4)" "ease_in_quad 1 = Inr 1"
  by (simp_all add: ease_in_quad_def float_eval)

lemma pingpong_value:
  "even r \<Longrightarrow> current_value (pingpong_thread l) r (1 / 4) = 1 / 4"
  "even r \<Longrightarrow> current_value (pingpong_thread l) r 1 = 1"
  "odd r \<Longrightarrow> current_value (pingpong_thread l) r (1 / 4) = 3 / 4"
  "odd r \<Longrightarrow> current_value (pingpong_thread l) r 1 = 0"
  by (simp_all add: current_value_def pingpong_thread_def pingpong_config_def float_eval
      even_iff_mod_2_eq_zero odd_iff_mod_2_eq_one)

lemma pingpong_run:
  "run [Animate ''pulse'' 0 1 (Some pingpong_config) False, Step 0 0 False,
        Step 0 0 False, Step 0 (1 / 2) False, Step 0 1 False,
        Step 0 2 False, Step 0 (5 / 2) False, Step 0 3 False,
        Step 0 4 False, Step 0 (9 / 2) False, Step 0 5 False,
        Step 0 6 False, Step 0 (13 / 2) False, Step 0 7 False,
        Step 0 7 False, Step 0 7 False, Step 0 7 False] manager_init =
   Inr \<lparr> active_animations = Map.empty,
         threads = [pingpong_thread Returned],
         events = [Update 0 0 (1 / 2) (1 / 4), Update 0 0 1 1,
                   Update 0 1 (1 / 2) (3 / 4), Update 0 1 1 0,
                   Update 0 2 (1 / 2) (1 / 4), Update 0 2 1 1,
                   Update 0 3 (1 / 2) (3 / 4), Update 0 3 1 0] \<rparr>"
  by (simp add: run_eval pingpong_config_fields pingpong_progress ease_in_quad_half
      pingpong_value [unfolded pingpong_thread_def] pingpong_thread_def)

theorem auto_reverse_parity_witness:
  "(\<exists>e. ease_in_quad (1 / 2) = Inr e \<and> (3 / 4 :: real) = fadd 0 (fmul (fsub 1 0) (fsub 1 e))) \<and>
   (\<exists>e. ease_in_quad (1 / 2) = Inr e \<and> (1 / 4 :: real) = fadd 0 (fmul (fsub 1 0) e))"
proof -
  let ?m = "\<lparr> active_animations = Map.empty,
         threads = [pingpong_thread Returned],
         events = [Update 0 0 (1 / 2) (1 / 4), Update 0 0 1 1,
                   Update 0 1 (1 / 2) (3 / 4), Update 0 1 1 0,
                   Update 0 2 (1 / 2) (1 / 4), Update 0 2 1 1,
                   Update 0 3 (1 / 2) (3 / 4), Update 0 3 1 0] \<rparr>"
  have odd_case: "Update 0 1 (1 / 2) (3 / 4) \<in> set (events ?m)"
    and even_case: "Update 0 2 (1 / 2) (1 / 4) \<in> set (events ?m)"
    and rev: "auto_reverse (config (threads ?m ! 0))"
    by (simp_all add: pingpong_thread_def pingpong_config_def)
  have args: "easing_func (easing (config (threads ?m ! 0))) = ease_in_quad"
    "start_value (threads ?m ! 0) = 0" "end_value (threads ?m ! 0) = 1"
    by (simp_all add: pingpong_thread_def pingpong_config_def)
  from auto_reverse_parity [OF pingpong_run odd_case rev]
    auto_reverse_parity [OF pingpong_run even_case rev]
  show ?thesis
    unfolding args by simp
qed

section \<open>An animation played once\<close>

subsection \<open>The easing functions return a value on the unit interval\<close>

lemma binary64_le_1: "x \<le> 1 \<Longrightarrow> binary64 x \<le> 1"
  using binary64_mono [of x 1] by (simp add: binary64_1)

lemma binary64_ge_m1: "- 1 \<le> x \<Longrightarrow> - 1 \<le> binary64 x"
  using binary64_mono [of "- 1" x] by (simp add: binary64_m1)

lemma fpow2_le_1:
  assumes "- 1 \<le> x" and "x \<le> 1"
  shows "0 \<le> fsub 1 (fpow x 2)"
proof -
  have "x ^ 2 \<le> 1"
    using assms by (simp add: abs_square_le_1 abs_le_iff)
  then have "binary64 (x ^ 2) \<le> 1"
    by (rule binary64_le_1)
  then show ?thesis
    unfolding fsub_def fpow_def by (intro binary64_nonneg) simp
qed

lemma py_sqrt_total: "0 \<le> x \<Longrightarrow> \<exists>v. py_sqrt x = Inr v"
  by (simp add: py_sqrt_def)

lemma circ_total:
  assumes "0 \<le> t" and "t \<le> 1"
  shows "\<exists>v. ease_in_circ t = Inr v" and "\<exists>v. ease_out_circ t = Inr v"
    and "\<exists>v. ease_in_out_circ t = Inr v"
proof -
  have "0 \<le> fsub 1 (fpow t 2)"
    using assms by (intro fpow2_le_1) simp_all
  then show "\<exists>v. ease_in_circ t = Inr v"
    by (simp add: ease_in_circ_def py_sqrt_def and_then_def)
  have "- 1 \<le> fsub t 1" "fsub t 1 \<le> 1"
    using assms binary64_ge_m1 [of "t - 1"] binary64_le_1 [of "t - 1"] by (simp_all add: fsub_def)
  then have "0 \<le> fsub 1 (fpow (fsub t 1) 2)"
    by (rule fpow2_le_1)
  then show "\<exists>v. ease_out_circ t = Inr v"
    by (simp add: ease_out_circ_def py_sqrt_def)
  show "\<exists>v. ease_in_out_circ t = Inr v"
  proof (cases "t < 1 / 2")
    case True
    have "- 1 \<le> fmul 2 t" "fmul 2 t \<le> 1"
      using assms True binary64_ge_m1 [of "2 * t"] binary64_le_1 [of "2 * t"]
      by (simp_all add: fmul_def)
    then have "0 \<le> fsub 1 (fpow (fmul 2 t) 2)"
      by (rule fpow2_le_1)
    then show ?thesis
      using True by (simp add: ease_in_out_circ_def py_sqrt_def and_then_def)
  next
    case False
    have lo: "- 2 \<le> fmul (- 2) t"
      using assms binary64_mono [of "- 2" "- 2 * t"] binary64_minus [of 2]
      by (simp add: fmul_def binary64_2)
    have hi: "fmul (- 2) t \<le> - 1"
      using False binary64_mono [of "- 2 * t" "- 1"] by (simp add: fmul_def binary64_m1)
    have "- 1 \<le> fadd (fmul (- 2) t) 2" "fadd (fmul (- 2) t) 2 \<le> 1"
      using lo hi binary64_ge_m1 [of "fmul (- 2) t + 2"] binary64_le_1 [of "fmul (- 2) t + 2"]
      by (simp_all add: fadd_def)
    then have "0 \<le> fsub 1 (fpow (fadd (fmul (- 2) t) 2) 2)"
      by (rule fpow2_le_1)
    then show ?thesis
      using False by (simp add: ease_in_out_circ_def py_sqrt_def and_then_def)
  qed
qed

lemma easing_func_total:
  assumes "0 \<le> t" and "t \<le> 1"
  shows "\<exists>v. easing_func sel t = Inr v"
proof (cases sel)
  case (Kind k)
  then show ?thesis
    using circ_total [OF assms]
    by (cases k)
      (simp_all add: linear_ease_def ease_in_quad_def ease_out_quad_def ease_in_out_quad_def
        ease_in_cubic_def ease_out_cubic_def ease_in_out_cubic_def bounce_out_def
        elastic_out_def ease_in_back_def ease_out_back_def ease_in_out_back_def)
next
  case (Other s)
  then show ?thesis by (simp add: ease_out_cubic_def)
qed

subsection \<open>The raw progress\<close>

lemma raw_progress_le_1: "raw_progress cfg st now \<le> 1"
  by (simp add: raw_progress_def)

lemma raw_progress_nonneg:
  assumes "0 < duration cfg" and "st \<le> now"
  shows "0 \<le> raw_progress cfg st now"
proof -
  have "0 \<le> fsub now st"
    using assms(2) by (simp add: fsub_def binary64_nonneg)
  then have "0 \<le> fdiv (fsub now st) (duration cfg)"
    using assms(1) by (simp add: fdiv_def binary64_nonneg)
  then show ?thesis
    by (simp add: raw_progress_def)
qed

lemma raw_progress_mono:
  assumes "0 < duration cfg" and "now \<le> now'"
  shows "raw_progress cfg st now \<le> raw_progress cfg st now'"
proof -
  have "fsub now st \<le> fsub now' st"
    using assms(2) by (simp add: fsub_def binary64_mono)
  then have "fdiv (fsub now st) (duration cfg) \<le> fdiv (fsub now' st) (duration cfg)"
    using assms(1) by (simp add: fdiv_def binary64_mono divide_right_mono)
  then show ?thesis
    by (auto simp: raw_progress_def min_def)
qed


subsection \<open>The ticks of one repeat iteration\<close>

lemma run_append:
  "run (as @ bs) m = (case run as m of Inl e \<Rightarrow> Inl e | Inr m' \<Rightarrow> run bs m')"
  by (induction as arbitrary: m) (simp_all split: sum.splits)

lemma step_tick:
  assumes "t < length (threads m)" and "place (threads m ! t) = AtWhile r st"
    and "do_run (threads m ! t)" and "0 < duration (config (threads m ! t))"
    and "st \<le> now"
  shows "step_thread t now False m =
    (if 1 \<le> raw_progress (config (threads m ! t)) st now
     then goto t (AtFor (Suc r)) (emit (tick t (threads m ! t) r st now) m)
     else if fps (config (threads m ! t)) < 0
     then goto t (Died ValueError) (emit (tick t (threads m ! t) r st now) m)
     else emit (tick t (threads m ! t) r st now) m)"
proof -
  let ?cfg = "config (threads m ! t)"
  obtain e where e: "easing_func (easing ?cfg) (raw_progress ?cfg st now) = Inr e"
    using easing_func_total [OF raw_progress_nonneg [OF assms(4,5)] raw_progress_le_1]
    by blast
  have same: "(threads m)[t := (threads m ! t)\<lparr>place := AtWhile r st\<rparr>] = threads m"
    using assms(2) by (metis list_update_id animation_thread.surjective
        animation_thread.update_convs(7))
  have "goto t (AtWhile r st) m' = m'" if "threads m' = threads m" for m'
    using that same by (simp add: goto_def)
  then have stay: "goto t (AtWhile r st) (emit ev m) = emit ev m" for ev
    by (simp add: emit_def)
  show ?thesis
    using assms e by (simp add: step_thread_def Let_def tick_def stay)
qed

lemma while_ticks:
  assumes "t < length (threads m)" and "place (threads m ! t) = AtWhile r st"
    and "do_run (threads m ! t)" and "0 < duration (config (threads m ! t))"
    and "0 < fps (config (threads m ! t))"
    and "\<forall>now \<in> set ticks. st \<le> now \<and> raw_progress (config (threads m ! t)) st now < 1"
  shows "run (map (\<lambda>now. Step t now False) ticks) m =
    Inr (m\<lparr>events := events m @ map (tick t (threads m ! t) r st) ticks\<rparr>)"
  using assms
proof (induction ticks arbitrary: m)
  case Nil
  then show ?case by simp
next
  case (Cons now ticks)
  let ?m1 = "emit (tick t (threads m ! t) r st now) m"
  have 1: "step_thread t now False m = ?m1"
    using step_tick [OF Cons.prems(1-4), of now] Cons.prems(5,6) by simp
  have th: "threads ?m1 = threads m"
    by (simp add: emit_def)
  have "run (map (\<lambda>now. Step t now False) ticks) ?m1 =
    Inr (?m1\<lparr>events := events ?m1 @ map (tick t (threads ?m1 ! t) r st) ticks\<rparr>)"
    using Cons.prems by (intro Cons.IH) (simp_all add: th)
  then show ?case
    by (simp add: 1 th) (simp add: emit_def)
qed


lemma progress_of_tick [simp]: "progress_of (tick t th r st now) = raw_progress (config th) st now"
  by (simp add: tick_def Let_def)

lemma sorted_progress:
  assumes "0 < duration cfg" and "sorted nows"
  shows "sorted (map (raw_progress cfg st) nows)"
  using assms(2)
  by (induction nows) (auto intro: raw_progress_mono [OF assms(1)])

text \<open>
  Claim C6, amended: an animation with \<open>repeat_count = 1\<close> and without
  \<open>auto_reverse\<close>, with a positive duration and frame rate, that is not stopped and
  whose callbacks do not raise, on a clock that does not go backwards. It delivers one
  update per tick up to the first tick at which the duration has elapsed; the raw
  progress of its updates is non-decreasing; the last update before the completion
  callback is made at raw progress exactly 1, and its value is
  \<open>start_value + (end_value - start_value) * easing(1.0)\<close> as the floating-point
  operations compute it. That is \<open>end_value\<close> when \<open>easing(1.0)\<close> is 1.0 and the
  interpolation is exact, not in general. The clock readings are \<open>t0\<close> (the thread
  starts), \<open>st\<close> (the start time of the iteration), \<open>ticks\<close>, \<open>final\<close> and three
  more for the exit of the loop, the clean-up and the completion.
\<close>

theorem played_once:
  assumes rc: "repeat_count cfg = 1" and nr: "\<not> auto_reverse cfg"
    and d: "0 < duration cfg" and f: "0 < fps cfg"
    and srt: "sorted (st # ticks @ [final])"
    and lt: "\<forall>now \<in> set ticks. raw_progress cfg st now < 1"
    and ge: "1 \<le> raw_progress cfg st final"
  shows "\<exists>m ups e1.
    run (Animate aid sv ev (Some cfg) True #
         map (\<lambda>now. Step 0 now False) (t0 # st # ticks @ [final, t1, t2, t3])) manager_init =
      Inr m \<and>
    events m = ups @ [Completion 0] \<and>
    length ups = Suc (length ticks) \<and>
    sorted (map progress_of ups) \<and>
    easing_func (easing cfg) 1 = Inr e1 \<and>
    last ups = Update 0 0 1 (fadd sv (fmul (fsub ev sv) e1)) \<and>
    \<not> is_animating aid m"
proof -
  define th where "th l = \<lparr> animation_id = aid, start_value = sv, end_value = ev,
    config = cfg, completion_callback = True, do_run = True, place = l \<rparr>" for l
  define ups where "ups = map (tick 0 (th (AtWhile 0 st)) 0 st) (ticks @ [final])"
  define m2 where "m2 = \<lparr> active_animations = [aid \<mapsto> 0], threads = [th (AtWhile 0 st)],
    events = [] \<rparr>"
  define m3 where "m3 = m2\<lparr>events := map (tick 0 (th (AtWhile 0 st)) 0 st) ticks\<rparr>"
  define m7 where "m7 = \<lparr> active_animations = Map.empty, threads = [th Returned],
    events = ups @ [Completion 0] \<rparr>"
  have after: "st \<le> final" "\<forall>now \<in> set ticks. st \<le> now"
    using srt by auto
  have start: "run [Animate aid sv ev (Some cfg) True, Step 0 t0 False, Step 0 st False]
      manager_init = Inr m2"
    using f rc by (simp add: run_eval m2_def th_def)
  have "run (map (\<lambda>now. Step 0 now False) ticks) m2 =
      Inr (m2\<lparr>events := events m2 @ map (tick 0 (threads m2 ! 0) 0 st) ticks\<rparr>)"
    using d f lt after(2) by (intro while_ticks) (simp_all add: m2_def th_def)
  then have loop: "run (map (\<lambda>now. Step 0 now False) ticks) m2 = Inr m3"
    by (simp add: m3_def m2_def)
  have last_tick: "step_thread 0 final False m3 =
      goto 0 (AtFor (Suc 0)) (emit (tick 0 (th (AtWhile 0 st)) 0 st final) m3)"
    using step_tick [of 0 m3 0 st final] d ge after(1) by (simp add: m3_def m2_def th_def)
  have finish: "run [Step 0 final False, Step 0 t1 False, Step 0 t2 False, Step 0 t3 False] m3 =
      Inr m7"
    using rc
    by (simp add: last_tick)
      (simp add: run_eval m3_def m2_def m7_def ups_def th_def)
  have split: "Animate aid sv ev (Some cfg) True #
      map (\<lambda>now. Step 0 now False) (t0 # st # ticks @ [final, t1, t2, t3]) =
      [Animate aid sv ev (Some cfg) True, Step 0 t0 False, Step 0 st False] @
      map (\<lambda>now. Step 0 now False) ticks @
      [Step 0 final False, Step 0 t1 False, Step 0 t2 False, Step 0 t3 False]"
    by simp
  have whole: "run (Animate aid sv ev (Some cfg) True #
      map (\<lambda>now. Step 0 now False) (t0 # st # ticks @ [final, t1, t2, t3])) manager_init =
      Inr m7"
    unfolding split by (simp only: run_append start loop finish sum.case)
  have one: "raw_progress cfg st final = 1"
    using ge raw_progress_le_1 [of cfg st final] by simp
  obtain e1 where e1: "easing_func (easing cfg) 1 = Inr e1"
    using easing_func_total [of 1 "easing cfg"] by auto
  have "last ups = tick 0 (th (AtWhile 0 st)) 0 st final"
    by (simp add: ups_def)
  also have "\<dots> = Update 0 0 1 (fadd sv (fmul (fsub ev sv) e1))"
    using nr by (simp add: tick_def th_def one e1 current_value_def)
  finally have final_value: "last ups = Update 0 0 1 (fadd sv (fmul (fsub ev sv) e1))" .
  have "sorted (ticks @ [final])"
    using srt by simp
  then have "sorted (map (raw_progress cfg st) (ticks @ [final]))"
    using d by (intro sorted_progress)
  moreover have "map progress_of ups = map (raw_progress cfg st) (ticks @ [final])"
    by (simp add: ups_def th_def)
  ultimately have sorted_ups: "sorted (map progress_of ups)"
    by simp
  have "events m7 = ups @ [Completion 0]" "length ups = Suc (length ticks)"
    "\<not> is_animating aid m7"
    by (simp_all add: m7_def ups_def is_animating_def)
  with whole sorted_ups e1 final_value show ?thesis
    by blast
qed


theorem played_once_witness:
  "\<exists>m ups e1.
    run (Animate ''fade'' 0 1 (Some fade_config) True #
         map (\<lambda>now. Step 0 now False) [0, 0, 1 / 4, 1 / 2, 1, 1, 1, 1]) manager_init = Inr m \<and>
    events m = ups @ [Completion 0] \<and>
    length ups = 3 \<and>
    sorted (map progress_of ups) \<and>
    easing_func (easing fade_config) 1 = Inr e1 \<and>
    last ups = Update 0 0 1 (fadd 0 (fmul (fsub 1 0) e1)) \<and>
    \<not> is_animating ''fade'' m"
  using played_once [of fade_config 0 "[1 / 4, 1 / 2]" 1 "''fade''" 0 1 0 1 1 1]
  by (simp add: fade_config_fields fade_progress numeral_3_eq_3)

text \<open>The linear fade of one second from 0 to 1 ends with exactly 1.\<close>

lemma linear_fade_run:
  "run (Animate ''fade'' 0 1 (Some fade_config) True #
        map (\<lambda>now. Step 0 now False) [0, 0, 1 / 4, 1 / 2, 1, 1, 1, 1]) manager_init =
   Inr \<lparr> active_animations = Map.empty,
         threads = [fade_thread Returned],
         events = [Update 0 0 (1 / 4) (1 / 4), Update 0 0 (1 / 2) (1 / 2), Update 0 0 1 1,
                   Completion 0] \<rparr>"
  by (simp add: run_eval fade_config_fields fade_progress fade_value [unfolded fade_thread_def]
      fade_thread_def linear_ease_def)

lemma back_config_fields:
  "easing_func (easing back_config) = ease_in_back" "duration back_config = 1"
  "fps back_config = 60" "repeat_count back_config = 1" "auto_reverse back_config = False"
  by (simp_all add: back_config_def)

lemma back_progress:
  "raw_progress back_config 0 0 = 0" "raw_progress back_config 0 1 = 1"
  by (simp_all add: raw_progress_def back_config_def float_eval)

lemma back_interpolation:
  "fadd 0 (fmul (fsub 1 0) 0) = 0"
  "fadd 0 (fmul (fsub 1 0) (1 - 2 powi (- 52))) = 1 - 2 powi (- 52)"
  by (simp_all add: float_eval)

text \<open>
  Claim C6, as stated: the last value delivered before the completion callback equals
  exactly \<open>end_value\<close>. With the easing \<open>ease_in_back\<close>, from 0 to 1, the last value
  delivered is \<open>1 - 2 ^ -52\<close> (Python prints \<open>0.9999999999999998\<close>).
\<close>

theorem ease_in_back_ends_below_end_value:
  "run (Animate ''fade'' 0 1 (Some back_config) True #
        map (\<lambda>now. Step 0 now False) [0, 0, 0, 1, 1, 1, 1]) manager_init =
   Inr \<lparr> active_animations = Map.empty,
         threads = [\<lparr> animation_id = ''fade'', start_value = 0, end_value = 1,
           config = back_config, completion_callback = True, do_run = True, place = Returned \<rparr>],
         events = [Update 0 0 0 0, Update 0 0 1 (1 - 2 powi (- 52)), Completion 0] \<rparr> \<and>
   (1 - 2 powi (- 52) :: real) \<noteq> 1"
  using back_interpolation
  by (simp add: run_eval back_config_fields back_progress ease_in_back_at_0 ease_in_back_at_1
      current_value_def)

end
